theory Spec2Isabelle
  imports Main "HOL-Library.Sublist" "HOL-Library.Multiset"
begin

section \<open>GxPT/sloc.py: counting source lines of code\<close>

text \<open>
  The script has three functions and an entry point:
  \<^verbatim>\<open>count_sloc_in_file\<close> (the line classifier), \<^verbatim>\<open>count_sloc_in_directory\<close>
  (the directory walker), \<^verbatim>\<open>print_sloc_table\<close> (the reporter) and the
  \<^verbatim>\<open>__main__\<close> block, which prompts for a directory, scans it, sorts the
  pairs and prints the table.
\<close>

subsection \<open>Python strings\<close>

text \<open>
  A Python 3 \<^verbatim>\<open>str\<close> is a sequence of Unicode code points, and \<^verbatim>\<open>len\<close> counts
  code points. A code point is a natural number here; \<open>py\<close> reads an ASCII literal.
\<close>

type_synonym pystr = "nat list"

definition py :: "string \<Rightarrow> pystr" where
  "py s = map of_char s"

text \<open>
  \<^verbatim>\<open>str.isspace\<close> of one character, as \<^verbatim>\<open>str.strip()\<close> without arguments uses it:
  the ASCII separators and controls (tab to carriage return, 0x1C to 0x1F, space) and
  the Unicode white space of the character database of Python 3.4 (Unicode 6.3).
\<close>

definition isspace :: "nat \<Rightarrow> bool" where
  "isspace c \<longleftrightarrow>
     (9 \<le> c \<and> c \<le> 13) \<or> (28 \<le> c \<and> c \<le> 32) \<or> c = 133 \<or> c = 160 \<or> c = 5760 \<or>
     (8192 \<le> c \<and> c \<le> 8202) \<or> c = 8232 \<or> c = 8233 \<or> c = 8239 \<or> c = 8287 \<or>
     c = 12288"

text \<open>\<^verbatim>\<open>s.strip()\<close>: leading and trailing white space removed.\<close>

definition strip :: "pystr \<Rightarrow> pystr" where
  "strip s = rev (dropWhile isspace (rev (dropWhile isspace s)))"

text \<open>\<^verbatim>\<open>s.startswith(p)\<close>, \<^verbatim>\<open>s.endswith(p)\<close> and \<^verbatim>\<open>sub in s\<close>.\<close>

fun startswith :: "pystr \<Rightarrow> pystr \<Rightarrow> bool" where
  "startswith s [] = True"
| "startswith [] (p # ps) = False"
| "startswith (c # cs) (p # ps) = (c = p \<and> startswith cs ps)"

definition endswith :: "pystr \<Rightarrow> pystr \<Rightarrow> bool" where
  "endswith s p = startswith (rev s) (rev p)"

fun contains :: "pystr \<Rightarrow> pystr \<Rightarrow> bool" where
  "contains sub [] = (sub = [])"
| "contains sub (c # cs) = (startswith (c # cs) sub \<or> contains sub cs)"

subsection \<open>The line classifier\<close>

text \<open>
  The errors the script can meet and never catches: a file that is not valid UTF-8, and
  a file that cannot be opened or read.
\<close>

datatype py_error = UnicodeDecodeError | OSError

text \<open>
  An opened text file is what iterating over it gives: each \<^verbatim>\<open>next(file)\<close> either
  yields a line (with its line terminator, if it has one) or raises. A file that cannot
  be opened raises at once.
\<close>

type_synonym text_file = "(py_error + pystr) list"

text \<open>
  The body of \<^verbatim>\<open>for line in file\<close>, with the two variables it updates,
  \<^verbatim>\<open>sloc\<close> and \<^verbatim>\<open>in_block_comment\<close>, as the state:
  \<^verbatim>\<open>
  stripped_line = line.strip()
  if in_block_comment:
      if '*/' in stripped_line:
          in_block_comment = False
      continue
  if not stripped_line or stripped_line.startswith('//'):
      continue
  if stripped_line.startswith('/*'):
      in_block_comment = True
      continue
  sloc += 1
  \<close>
\<close>

definition classify_line :: "int \<times> bool \<Rightarrow> pystr \<Rightarrow> int \<times> bool" where
  "classify_line st line =
     (let sloc = fst st; in_block_comment = snd st; stripped_line = strip line in
      if in_block_comment then
        (if contains (py ''*/'') stripped_line then (sloc, False) else (sloc, True))
      else if stripped_line = [] \<or> startswith stripped_line (py ''//'') then (sloc, False)
      else if startswith stripped_line (py ''/*'') then (sloc, True)
      else (sloc + 1, False))"

text \<open>The loop: a raise while reading leaves it at once.\<close>

fun for_line_in_file :: "int \<times> bool \<Rightarrow> text_file \<Rightarrow> py_error + int \<times> bool" where
  "for_line_in_file st [] = Inr st"
| "for_line_in_file st (Inl e # rest) = Inl e"
| "for_line_in_file st (Inr line # rest) = for_line_in_file (classify_line st line) rest"

definition count_sloc_in_file :: "text_file \<Rightarrow> py_error + int" where
  "count_sloc_in_file file =
     (case for_line_in_file (0, False) file of
        Inl e \<Rightarrow> Inl e
      | Inr st \<Rightarrow> Inr (fst st))"

text \<open>A file that reads without error, from its lines.\<close>

definition readable :: "pystr list \<Rightarrow> text_file" where
  "readable ls = map Inr ls"

text \<open>A line of text with its terminator, as text mode yields it.\<close>

definition ln :: "string \<Rightarrow> pystr" where
  "ln s = py s @ [10]"

subsection \<open>The directory walker\<close>

text \<open>
  A directory, as \<^verbatim>\<open>os.walk\<close> sees it: the entries that are not directories, in the
  order the listing gives them, each with what opening and reading it gives, and the
  subdirectories, in listing order. Every directory is taken to be listable and no
  subdirectory to be a symbolic link, and \<^verbatim>\<open>open(os.path.join(root, file))\<close> to open
  the entry that the listing of \<^verbatim>\<open>root\<close> named \<^verbatim>\<open>file\<close>.
\<close>

datatype dir = Dir (files: "(pystr \<times> text_file) list") (subdirs: "(pystr \<times> dir) list")

text \<open>
  \<^verbatim>\<open>os.path.join(a, b)\<close> with the separator \<^verbatim>\<open>/\<close> (posixpath):
  \<^verbatim>\<open>
  if b.startswith(sep): path = b
  elif not path or path.endswith(sep): path += b
  else: path += sep + b
  \<close>
\<close>

definition join :: "pystr \<Rightarrow> pystr \<Rightarrow> pystr" where
  "join a b =
     (if startswith b (py ''/'') then b
      else if a = [] \<or> endswith a (py ''/'') then a @ b
      else a @ py ''/'' @ b)"

text \<open>
  \<^verbatim>\<open>os.walk(top)\<close>, top down: the triple of the directory itself, then the walk of
  each subdirectory in turn.
\<close>

fun os_walk :: "pystr \<Rightarrow> dir \<Rightarrow> (pystr \<times> pystr list \<times> (pystr \<times> text_file) list) list" where
  "os_walk path (Dir fs ds) =
     (path, map fst ds, fs) # concat (map (\<lambda>(name, d). os_walk (join path name) d) ds)"

text \<open>
  The inner loop \<^verbatim>\<open>for file in files\<close>, with \<^verbatim>\<open>file_sloc_pairs\<close> as the state:
  \<^verbatim>\<open>
  if file.endswith('.cs'):
      file_path = os.path.join(root, file)
      sloc = count_sloc_in_file(file_path)
      file_sloc_pairs.append((file_path, sloc))
  \<close>
\<close>

fun for_file_in_files ::
  "pystr \<Rightarrow> (pystr \<times> text_file) list \<Rightarrow> (pystr \<times> int) list \<Rightarrow> py_error + (pystr \<times> int) list" where
  "for_file_in_files root [] file_sloc_pairs = Inr file_sloc_pairs"
| "for_file_in_files root ((file, content) # rest) file_sloc_pairs =
     (if endswith file (py ''.cs'') then
        (case count_sloc_in_file content of
           Inl e \<Rightarrow> Inl e
         | Inr sloc \<Rightarrow>
             for_file_in_files root rest (file_sloc_pairs @ [(join root file, sloc)]))
      else for_file_in_files root rest file_sloc_pairs)"

text \<open>The outer loop \<^verbatim>\<open>for root, _, files in os.walk(directory)\<close>.\<close>

fun for_root_in_walk ::
  "(pystr \<times> pystr list \<times> (pystr \<times> text_file) list) list \<Rightarrow> (pystr \<times> int) list \<Rightarrow>
   py_error + (pystr \<times> int) list" where
  "for_root_in_walk [] file_sloc_pairs = Inr file_sloc_pairs"
| "for_root_in_walk ((root, _, fs) # rest) file_sloc_pairs =
     (case for_file_in_files root fs file_sloc_pairs of
        Inl e \<Rightarrow> Inl e
      | Inr file_sloc_pairs' \<Rightarrow> for_root_in_walk rest file_sloc_pairs')"

text \<open>The directory is given by its path and by the tree found there.\<close>

definition count_sloc_in_directory :: "pystr \<Rightarrow> dir \<Rightarrow> py_error + (pystr \<times> int) list" where
  "count_sloc_in_directory directory tree = for_root_in_walk (os_walk directory tree) []"

subsection \<open>The reporter\<close>

text \<open>\<^verbatim>\<open>str(n)\<close> of an integer: its decimal digits, after a minus sign if negative.\<close>

fun digits :: "nat \<Rightarrow> pystr" where
  "digits n = (if n < 10 then [48 + n] else digits (n div 10) @ [48 + n mod 10])"

declare digits.simps [simp del]

definition str_int :: "int \<Rightarrow> pystr" where
  "str_int i = (if i < 0 then 45 # digits (nat (- i)) else digits (nat i))"

text \<open>
  The format fields \<^verbatim>\<open>{:<60}\<close> and \<^verbatim>\<open>{:>10}\<close>: the text filled with spaces up to
  a minimum width, on the right or on the left. A longer text is left as it is.
\<close>

definition ljust :: "pystr \<Rightarrow> nat \<Rightarrow> pystr" where
  "ljust s w = s @ replicate (w - length s) 32"

definition rjust :: "pystr \<Rightarrow> nat \<Rightarrow> pystr" where
  "rjust s w = replicate (w - length s) 32 @ s"

text \<open>\<^verbatim>\<open>"{:<60} {:>10}".format(a, b)\<close>, for texts \<open>a\<close> and \<open>b\<close>.\<close>

definition format_row :: "pystr \<Rightarrow> pystr \<Rightarrow> pystr" where
  "format_row a b = ljust a 60 @ py '' '' @ rjust b 10"

definition header :: pystr where
  "header = format_row (py ''Filename'') (py ''SLOC'')"

text \<open>
  The loop of \<^verbatim>\<open>print_sloc_table\<close>: one printed line for each pair, and the total
  accumulated in \<^verbatim>\<open>total_sloc\<close>.
\<close>

fun for_pair_in_pairs :: "(pystr \<times> int) list \<Rightarrow> int \<Rightarrow> pystr list \<times> int" where
  "for_pair_in_pairs [] total_sloc = ([], total_sloc)"
| "for_pair_in_pairs ((file_path, sloc) # rest) total_sloc =
     (let r = for_pair_in_pairs rest (total_sloc + sloc)
      in (format_row file_path (str_int sloc) # fst r, snd r))"

text \<open>The lines \<^verbatim>\<open>print_sloc_table\<close> prints, in order.\<close>

definition print_sloc_table :: "(pystr \<times> int) list \<Rightarrow> pystr list" where
  "print_sloc_table file_sloc_pairs =
     (let r = for_pair_in_pairs file_sloc_pairs 0
      in [header, replicate (length header) 61] @ fst r @
         [replicate (length header) 61, format_row (py ''Total'') (str_int (snd r))])"

subsection \<open>The entry point\<close>

text \<open>
  \<^verbatim>\<open>file_sloc_pairs.sort(key=lambda x: x[1], reverse=True)\<close>. The sort of Python is
  stable, and with \<^verbatim>\<open>reverse=True\<close> it reverses the list, sorts it by the key in
  ascending order and reverses the result, so that equal keys keep their order.
\<close>

definition sort_reverse :: "(pystr \<times> int) list \<Rightarrow> (pystr \<times> int) list" where
  "sort_reverse file_sloc_pairs = rev (sort_key snd (rev file_sloc_pairs))"

definition prompt :: pystr where
  "prompt = py ''Enter the directory path to scan: ''"

text \<open>
  What a run writes to standard output (the prompt, then one entry for each line
  printed) and the error it ends with, if any. The path typed at the prompt and the
  tree found there are the arguments.
\<close>

definition main :: "pystr \<Rightarrow> dir \<Rightarrow> pystr list \<times> py_error option" where
  "main directory_to_scan tree =
     (case count_sloc_in_directory directory_to_scan tree of
        Inl e \<Rightarrow> ([prompt], Some e)
      | Inr file_sloc_pairs \<Rightarrow>
          (prompt # print_sloc_table (sort_reverse file_sloc_pairs), None))"

subsection \<open>Block comments and lines of code\<close>

text \<open>A line whose trimmed text starts with the opening token, and a line whose trimmed
  text contains the closing token.\<close>

definition opens :: "pystr \<Rightarrow> bool" where
  "opens l = startswith (strip l) (py ''/*'')"

definition closes :: "pystr \<Rightarrow> bool" where
  "closes l = contains (py ''*/'') (strip l)"

text \<open>
  The lines of code of a file as the specification counts them: the lines that are
  neither blank, nor single-line comments, nor inside or delimiting a block comment. A
  block comment is a comment from its opening token, at the start of a trimmed line, to
  the first closing token after it, on the same line or on a later one. The first
  argument says whether the lines start inside a block comment.
\<close>

fun lines_of_code :: "bool \<Rightarrow> pystr list \<Rightarrow> int" where
  "lines_of_code in_comment [] = 0"
| "lines_of_code in_comment (l # ls) =
     (let s = strip l in
      if in_comment then lines_of_code (\<not> contains (py ''*/'') s) ls
      else if s = [] \<or> startswith s (py ''//'') then lines_of_code False ls
      else if startswith s (py ''/*'') then lines_of_code (\<not> contains (py ''*/'') (drop 2 s)) ls
      else 1 + lines_of_code False ls)"

subsection \<open>The files under a directory\<close>

text \<open>
  The files under a directory, recursively, as the specification speaks of them: the
  files of the directory itself, each with the path of the directory that holds it and
  its name, then the files under each subdirectory.
\<close>

fun files_under :: "pystr \<Rightarrow> dir \<Rightarrow> (pystr \<times> pystr \<times> text_file) list" where
  "files_under path (Dir fs ds) =
     map (\<lambda>(name, content). (path, name, content)) fs @
     concat (map (\<lambda>(name, d). files_under (join path name) d) ds)"

text \<open>An entry whose file name ends with \<^verbatim>\<open>.cs\<close>.\<close>

definition is_cs :: "pystr \<times> pystr \<times> text_file \<Rightarrow> bool" where
  "is_cs entry = endswith (fst (snd entry)) (py ''.cs'')"

text \<open>A pair that belongs to an entry: the joined path of the file, and the count the
  classifier returns for its contents.\<close>

definition pair_of :: "pystr \<times> int \<Rightarrow> pystr \<times> pystr \<times> text_file \<Rightarrow> bool" where
  "pair_of pair entry \<longleftrightarrow>
     fst pair = join (fst entry) (fst (snd entry)) \<and>
     count_sloc_in_file (snd (snd entry)) = Inr (snd pair)"

text \<open>The files that the triples of a walk list, each with the \<^verbatim>\<open>root\<close> of its triple.\<close>

definition walk_files ::
  "(pystr \<times> pystr list \<times> (pystr \<times> text_file) list) list \<Rightarrow> (pystr \<times> pystr \<times> text_file) list" where
  "walk_files ws = concat (map (\<lambda>(root, _, fs). map (\<lambda>(name, content). (root, name, content)) fs) ws)"

subsection \<open>The table row of the specification\<close>

text \<open>
  The data row as the specification describes it: the path column padded or truncated
  to exactly 60 characters, a space, the count right-justified in 10 characters.
\<close>

definition spec_row :: "pystr \<Rightarrow> int \<Rightarrow> pystr" where
  "spec_row path n = take 60 (ljust path 60) @ py '' '' @ rjust (str_int n) 10"

section \<open>Properties\<close>

subsection \<open>Strings\<close>

lemma py_Nil [simp]: "py [] = []"
  by (simp add: py_def)

lemma py_Cons [simp]: "py (c # cs) = of_char c # py cs"
  by (simp add: py_def)

lemma startswith_prefix: "startswith s p = prefix p s"
  by (induction s p rule: startswith.induct) auto

lemma endswith_suffix: "endswith s p = suffix p s"
  by (simp add: endswith_def startswith_prefix suffix_to_prefix)

lemma contains_sublist: "contains sub s = sublist sub s"
  by (induction s) (auto simp: startswith_prefix sublist_Cons_right)

subsection \<open>The classifier on files that read without error\<close>

lemma for_line_readable:
  "for_line_in_file st (readable ls) = Inr (foldl classify_line st ls)"
  by (induction ls arbitrary: st) (simp_all add: readable_def)

lemma count_sloc_readable:
  "count_sloc_in_file (readable ls) = Inr (fst (foldl classify_line (0, False) ls))"
  by (simp add: count_sloc_in_file_def for_line_readable)

lemma classify_skip:
  "strip l = [] \<or> startswith (strip l) (py ''//'') \<Longrightarrow> classify_line (n, False) l = (n, False)"
  by (auto simp: classify_line_def Let_def)

lemma open_not_skipped:
  assumes "startswith s (py ''/*'')"
  shows "s \<noteq> [] \<and> \<not> startswith s (py ''//'')"
proof (cases s)
  case Nil
  with assms show ?thesis by simp
next
  case (Cons c cs)
  with assms show ?thesis by (cases cs) auto
qed


lemma classify_open:
  "opens l \<Longrightarrow> classify_line (n, False) l = (n, True)"
  using open_not_skipped [of "strip l"] by (simp add: classify_line_def Let_def opens_def)

lemma classify_code:
  "strip l \<noteq> [] \<Longrightarrow> \<not> startswith (strip l) (py ''//'') \<Longrightarrow> \<not> opens l \<Longrightarrow>
   classify_line (n, False) l = (n + 1, False)"
  by (auto simp: classify_line_def Let_def opens_def)

lemma classify_inside:
  "\<not> closes l \<Longrightarrow> classify_line (n, True) l = (n, True)"
  by (simp add: classify_line_def Let_def closes_def)

lemma classify_close:
  "closes l \<Longrightarrow> classify_line (n, True) l = (n, False)"
  by (simp add: classify_line_def Let_def closes_def)

lemma foldl_inside:
  "list_all (\<lambda>l. \<not> closes l) body \<Longrightarrow> foldl classify_line (n, True) body = (n, True)"
  by (induction body) (simp_all add: classify_inside)

lemma for_line_append:
  "for_line_in_file st (readable (xs @ ys)) =
   for_line_in_file (foldl classify_line st xs) (readable ys)"
  by (simp add: for_line_readable)

lemma foldl_block_prefix:
  assumes "opens l0" "list_all (\<lambda>l. \<not> closes l) body" "closes l1"
  shows "fst (foldl classify_line (n, False) (take k (l0 # body @ [l1]))) = n"
proof (cases k)
  case 0
  then show ?thesis by simp
next
  case (Suc j)
  have inside: "list_all (\<lambda>l. \<not> closes l) (take j body)"
    using assms(2) by (simp add: list_all_iff) (meson in_set_takeD)
  show ?thesis
  proof (cases "j \<le> length body")
    case True
    with Suc assms(1) inside show ?thesis
      by (simp add: classify_open foldl_inside)
  next
    case False
    with Suc assms show ?thesis
      by (simp add: classify_open foldl_inside classify_close)
  qed
qed

lemma closes_any_text: "closes (a @ py ''*/'' @ b)"
proof -
  have ns: "\<not> isspace 42" "\<not> isspace 47" by (simp_all add: isspace_def)
  have 1: "dropWhile isspace (a @ 42 # 47 # b) = dropWhile isspace a @ 42 # 47 # b"
    using ns by (simp add: dropWhile_append3)
  have 2: "dropWhile isspace (rev b @ 47 # 42 # rev (dropWhile isspace a)) =
      dropWhile isspace (rev b) @ 47 # 42 # rev (dropWhile isspace a)"
    using ns by (simp add: dropWhile_append3)
  have "strip (a @ py ''*/'' @ b) =
      dropWhile isspace a @ [42, 47] @ rev (dropWhile isspace (rev b))"
    by (simp add: strip_def 1 2)
  then show ?thesis
    by (simp add: closes_def contains_sublist sublist_def) blast
qed

lemma for_line_resume:
  assumes "for_line_in_file (0, False) (readable before) = Inr (n, False)"
  shows "for_line_in_file (0, False) (readable (before @ ls)) =
     Inr (foldl classify_line (n, False) ls)"
proof -
  from assms have "foldl classify_line (0, False) before = (n, False)"
    by (simp add: for_line_readable)
  then show ?thesis
    by (simp add: for_line_readable)
qed

lemma foldl_skipped:
  "\<forall>l \<in> set ls. strip l = [] \<or> startswith (strip l) (py ''//'') \<Longrightarrow>
   foldl classify_line (n, False) ls = (n, False)"
  by (induction ls) (simp_all add: classify_skip)

lemmas eval_line = count_sloc_in_file_def readable_def ln_def classify_line_def strip_def isspace_def
  opens_def closes_def

text \<open>
  Away from block comments that are closed on their opening line, the classifier counts
  the lines of code.
\<close>

lemma classify_line_lines_of_code:
  assumes "opens l \<longrightarrow> \<not> contains (py ''*/'') (drop 2 (strip l))"
  shows "\<exists>k b'. classify_line (n, b) l = (n + k, b') \<and>
     lines_of_code b (l # ls) = k + lines_of_code b' ls"
proof (cases b)
  case True
  then show ?thesis
    by (auto simp: classify_line_def Let_def)
next
  case False
  with assms open_not_skipped [of "strip l"] show ?thesis
    by (auto simp: classify_line_def Let_def opens_def)
qed

lemma foldl_lines_of_code:
  "\<forall>l \<in> set ls. opens l \<longrightarrow> \<not> contains (py ''*/'') (drop 2 (strip l)) \<Longrightarrow>
   fst (foldl classify_line (n, b) ls) = n + lines_of_code b ls"
proof (induction ls arbitrary: n b)
  case Nil
  then show ?case by simp
next
  case (Cons l ls)
  from Cons.prems have "opens l \<longrightarrow> \<not> contains (py ''*/'') (drop 2 (strip l))"
    by simp
  from classify_line_lines_of_code [OF this, of n b ls] obtain k b' where
    kb: "classify_line (n, b) l = (n + k, b')" "lines_of_code b (l # ls) = k + lines_of_code b' ls"
    by blast
  from Cons.prems have "\<forall>l \<in> set ls. opens l \<longrightarrow> \<not> contains (py ''*/'') (drop 2 (strip l))"
    by simp
  from Cons.IH [OF this, of "n + k" b'] kb show ?case
    by (simp del: lines_of_code.simps)
qed

lemma count_sloc_is_lines_of_code:
  "\<forall>l \<in> set ls. opens l \<longrightarrow> \<not> contains (py ''*/'') (drop 2 (strip l)) \<Longrightarrow>
   count_sloc_in_file (readable ls) = Inr (lines_of_code False ls)"
  by (simp add: count_sloc_readable foldl_lines_of_code)

subsection \<open>The claims about the classifier\<close>

text \<open>
  C1. The file of the specification's scenario, with the lines
  \<^verbatim>\<open>// header comment\<close>, \<^verbatim>\<open>using System;\<close>, an empty line, \<^verbatim>\<open>/* block\<close>,
  \<^verbatim>\<open>   comment */\<close>, \<^verbatim>\<open>class A {\<close>, \<^verbatim>\<open>    int x = 1;\<close> and \<^verbatim>\<open>}\<close>, has 4 source
  lines, whether or not its last line ends with a line terminator.
\<close>

theorem scenario_sloc_is_4: "count_sloc_in_file (readable
   [ln ''// header comment'', ln ''using System;'', ln '''', ln ''/* block'',
    ln ''   comment */'', ln ''class A {'', ln ''    int x = 1;'', ln ''}'']) = Inr 4 \<and>
  count_sloc_in_file (readable
   [ln ''// header comment'', ln ''using System;'', ln '''', ln ''/* block'',
    ln ''   comment */'', ln ''class A {'', ln ''    int x = 1;'', py ''}'']) = Inr 4"
  by (simp add: eval_line)

text \<open>
  C2. A file with \<open>N\<close> lines of code, interleaved in any way with comment lines and
  blank lines, should count \<open>N\<close>. The classifier does not: the file with the lines
  \<^verbatim>\<open>/* comment */\<close> and \<^verbatim>\<open>int x = 1;\<close> has one line of code, its second line, since
  the block comment of the first line is closed on that line; the classifier counts 0.
  It enters the block-comment state on the first line without looking for the closing
  token there, and the second line is skipped as if it were inside the comment.
\<close>

theorem one_line_block_comment_hides_code:
  "lines_of_code False [ln ''/* comment */'', ln ''int x = 1;''] = 1 \<and>
   count_sloc_in_file (readable [ln ''/* comment */'', ln ''int x = 1;'']) = Inr 0"
  by (simp add: eval_line)

text \<open>
  C3. When a line whose trimmed text starts with \<^verbatim>\<open>/*\<close> meets the classifier in
  the normal state with \<open>n\<close> lines counted, the count is still \<open>n\<close> after every line from
  that line to the first later line whose trimmed text contains \<^verbatim>\<open>*/\<close>; after that
  closing line the classifier is in the normal state again, so that the file counts as it
  would without the block. A line holding \<^verbatim>\<open>*/\<close> closes whatever text is before or
  after the token on it.
\<close>

theorem block_comment_contributes_nothing:
  assumes "for_line_in_file (0, False) (readable before) = Inr (n, False)"
    and "opens l0" and "list_all (\<lambda>l. \<not> closes l) body" and "closes l1"
  shows "(\<forall>k. \<exists>b. for_line_in_file (0, False) (readable (before @ take k (l0 # body @ [l1]))) = Inr (n, b)) \<and>
     for_line_in_file (0, False) (readable (before @ l0 # body @ [l1])) = Inr (n, False) \<and>
     for_line_in_file (0, False) (readable (before @ l0 # body @ l1 # rest)) =
       for_line_in_file (n, False) (readable rest) \<and>
     count_sloc_in_file (readable (before @ l0 # body @ l1 # rest)) =
       count_sloc_in_file (readable (before @ rest)) \<and>
     (\<forall>a b. closes (a @ py ''*/'' @ b))"
proof -
  note resume = for_line_resume [OF assms(1)]
  have blk: "foldl classify_line (n, False) (l0 # body @ [l1]) = (n, False)"
    using assms(2-4) by (simp add: classify_open foldl_inside classify_close)
  have blk_rest: "foldl classify_line (n, False) (l0 # body @ l1 # rest) =
      foldl classify_line (n, False) rest"
    using assms(2-4) by (simp add: classify_open foldl_inside classify_close)
  have a: "\<exists>b. for_line_in_file (0, False) (readable (before @ take k (l0 # body @ [l1]))) = Inr (n, b)" for k
  proof -
    have "fst (foldl classify_line (n, False) (take k (l0 # body @ [l1]))) = n"
      using assms(2-4) by (rule foldl_block_prefix)
    then have "foldl classify_line (n, False) (take k (l0 # body @ [l1])) =
        (n, snd (foldl classify_line (n, False) (take k (l0 # body @ [l1]))))"
      by (metis prod.collapse)
    then show ?thesis
      unfolding resume by blast
  qed
  have b: "for_line_in_file (0, False) (readable (before @ l0 # body @ [l1])) = Inr (n, False)"
    unfolding resume blk ..
  have c: "for_line_in_file (0, False) (readable (before @ l0 # body @ l1 # rest)) =
       for_line_in_file (n, False) (readable rest)"
    by (simp only: resume blk_rest for_line_readable [symmetric])
  have d: "count_sloc_in_file (readable (before @ l0 # body @ l1 # rest)) =
       count_sloc_in_file (readable (before @ rest))"
    unfolding count_sloc_in_file_def resume blk_rest ..
  from a b c d closes_any_text show ?thesis by blast
qed

theorem block_comment_contributes_nothing_witness:
  "for_line_in_file (0, False) (readable [ln ''a();'']) = Inr (1, False) \<and>
   for_line_in_file (0, False) (readable [ln ''a();'', ln ''/* x'', ln ''b();'', ln ''y */ c();'']) = Inr (1, False) \<and>
   count_sloc_in_file (readable [ln ''a();'', ln ''/* x'', ln ''b();'', ln ''y */ c();'', ln ''d();''])
     = count_sloc_in_file (readable [ln ''a();'', ln ''d();''])"
proof -
  have h: "for_line_in_file (0, False) (readable [ln ''a();'']) = Inr (1, False)"
    "opens (ln ''/* x'')" "list_all (\<lambda>l. \<not> closes l) [ln ''b();'']" "closes (ln ''y */ c();'')"
    by (simp_all add: eval_line)
  show ?thesis
    using h(1) block_comment_contributes_nothing [OF h, of "[ln ''d();'']"] by simp
qed

text \<open>
  C9. A file with no line, and a file whose lines are all blank or start with
  \<^verbatim>\<open>//\<close> once trimmed, has 0 source lines.
\<close>

theorem blank_and_comment_only_is_zero:
  "\<forall>l \<in> set ls. strip l = [] \<or> startswith (strip l) (py ''//'') \<Longrightarrow>
   count_sloc_in_file (readable ls) = Inr 0"
  by (simp add: count_sloc_readable foldl_skipped)

theorem blank_and_comment_only_is_zero_witness:
  "count_sloc_in_file (readable []) = Inr 0 \<and>
   count_sloc_in_file (readable [ln '''', ln ''// a comment'', ln ''   '', ln ''  //x'']) = Inr 0"
  using blank_and_comment_only_is_zero [of "[]"] blank_and_comment_only_is_zero [of "[ln '''', ln ''// a comment'', ln ''   '', ln ''  //x'']"]
  by (simp add: ln_def strip_def isspace_def)

text \<open>
  C10. In the normal state a line whose trimmed text starts with \<^verbatim>\<open>/*\<close> puts the
  classifier in the block-comment state, whatever else the line holds; the line is not
  searched for \<^verbatim>\<open>*/\<close>. So the file with the lines \<^verbatim>\<open>/* comment */\<close> and
  \<^verbatim>\<open>int x = 1;\<close> has 0 source lines.
\<close>

theorem open_line_not_checked_for_close:
  "(opens l \<longrightarrow> for_line_in_file (n, False) (Inr l # rest) = for_line_in_file (n, True) rest) \<and>
   count_sloc_in_file (readable [ln ''/* comment */'', ln ''int x = 1;'']) = Inr 0"
  by (simp add: classify_open) (simp add: eval_line)

theorem open_line_not_checked_for_close_witness:
  "opens (ln ''/* comment */'') \<and> closes (ln ''/* comment */'') \<and>
   for_line_in_file (5, False) (readable [ln ''/* comment */'', ln ''int x = 1;'']) = Inr (5, True)"
  using open_line_not_checked_for_close [of "ln ''/* comment */''" 5 "[Inr (ln ''int x = 1;'')]"]
  by (simp add: eval_line)

subsection \<open>The walker\<close>

lemma walk_files_simps [simp]:
  "walk_files [] = []"
  "walk_files ((root, dn, fs) # ws) = map (\<lambda>(name, content). (root, name, content)) fs @ walk_files ws"
  "walk_files (ws @ vs) = walk_files ws @ walk_files vs"
  by (simp_all add: walk_files_def)

lemma walk_files_concat: "walk_files (concat wss) = concat (map walk_files wss)"
  by (induction wss) simp_all

lemma files_under_walk: "files_under path tree = walk_files (os_walk path tree)"
proof (induction path tree rule: os_walk.induct)
  case (1 path fs ds)
  have "files_under (join path name) d = walk_files (os_walk (join path name) d)"
    if "(name, d) \<in> set ds" for name d
    using 1 [OF that refl] .
  then have eq: "map (\<lambda>(name, d). files_under (join path name) d) ds =
      map (\<lambda>(name, d). walk_files (os_walk (join path name) d)) ds"
    by (intro map_cong refl) auto
  have w: "map walk_files (map (\<lambda>(name, d). os_walk (join path name) d) ds) =
      map (\<lambda>(name, d). walk_files (os_walk (join path name) d)) ds"
    by (simp add: case_prod_unfold comp_def)
  show ?case
    by (simp only: files_under.simps os_walk.simps walk_files_simps walk_files_concat w eq)
qed

lemma for_file_ok:
  assumes "\<forall>(file, content) \<in> set fs. endswith file (py ''.cs'') \<longrightarrow> (\<exists>n. count_sloc_in_file content = Inr n)"
  shows "\<exists>ps. for_file_in_files root fs acc = Inr (acc @ ps) \<and>
     list_all2 pair_of ps (filter is_cs (map (\<lambda>(name, content). (root, name, content)) fs))"
  using assms
proof (induction fs arbitrary: acc)
  case Nil
  then show ?case by simp
next
  case (Cons fc fs)
  obtain name content where fc: "fc = (name, content)" by (cases fc)
  from Cons.prems have rest: "\<forall>(file, content) \<in> set fs. endswith file (py ''.cs'') \<longrightarrow> (\<exists>n. count_sloc_in_file content = Inr n)"
    by simp
  show ?case
  proof (cases "endswith name (py ''.cs'')")
    case False
    with Cons.IH [OF rest, of acc] show ?thesis
      by (simp add: fc is_cs_def)
  next
    case True
    with Cons.prems obtain n where n: "count_sloc_in_file content = Inr n"
      by (auto simp: fc)
    from Cons.IH [OF rest, of "acc @ [(join root name, n)]"] obtain ps where
      ps: "for_file_in_files root fs (acc @ [(join root name, n)]) = Inr (acc @ [(join root name, n)] @ ps)"
        "list_all2 pair_of ps (filter is_cs (map (\<lambda>(name, content). (root, name, content)) fs))"
      by auto
    have "for_file_in_files root (fc # fs) acc = Inr (acc @ ((join root name, n) # ps))"
      using True n ps(1) by (simp add: fc)
    moreover have "list_all2 pair_of ((join root name, n) # ps)
        (filter is_cs (map (\<lambda>(name, content). (root, name, content)) (fc # fs)))"
      using True n ps(2) by (simp add: fc is_cs_def pair_of_def)
    ultimately show ?thesis by blast
  qed
qed

lemma for_root_ok:
  assumes "\<forall>(root, file, content) \<in> set (walk_files ws). endswith file (py ''.cs'') \<longrightarrow> (\<exists>n. count_sloc_in_file content = Inr n)"
  shows "\<exists>ps. for_root_in_walk ws acc = Inr (acc @ ps) \<and> list_all2 pair_of ps (filter is_cs (walk_files ws))"
  using assms
proof (induction ws arbitrary: acc)
  case Nil
  then show ?case by simp
next
  case (Cons w ws)
  obtain root dn fs where w: "w = (root, dn, fs)" by (cases w)
  from Cons.prems have h1: "\<forall>(file, content) \<in> set fs. endswith file (py ''.cs'') \<longrightarrow> (\<exists>n. count_sloc_in_file content = Inr n)"
    by (force simp: w)
  from Cons.prems have h2: "\<forall>(root, file, content) \<in> set (walk_files ws). endswith file (py ''.cs'') \<longrightarrow> (\<exists>n. count_sloc_in_file content = Inr n)"
    by (auto simp: w)
  from for_file_ok [OF h1, of root acc] obtain ps where
    ps: "for_file_in_files root fs acc = Inr (acc @ ps)"
      "list_all2 pair_of ps (filter is_cs (map (\<lambda>(name, content). (root, name, content)) fs))"
    by blast
  from Cons.IH [OF h2, of "acc @ ps"] obtain qs where
    qs: "for_root_in_walk ws (acc @ ps) = Inr ((acc @ ps) @ qs)"
      "list_all2 pair_of qs (filter is_cs (walk_files ws))"
    by blast
  have "for_root_in_walk (w # ws) acc = Inr (acc @ (ps @ qs))"
    using ps(1) qs(1) by (simp add: w)
  moreover have "list_all2 pair_of (ps @ qs) (filter is_cs (walk_files (w # ws)))"
    using ps(2) qs(2) by (simp add: w list_all2_appendI)
  ultimately show ?case by blast
qed

lemma for_file_Inl:
  "for_file_in_files root fs acc = Inl e \<Longrightarrow>
   \<exists>(file, content) \<in> set fs. endswith file (py ''.cs'') \<and> count_sloc_in_file content = Inl e"
proof (induction fs arbitrary: acc)
  case Nil
  then show ?case by simp
next
  case (Cons fc fs)
  obtain name content where fc: "fc = (name, content)" by (cases fc)
  from Cons show ?case
    by (auto simp: fc split: if_splits sum.splits)
qed

lemma for_file_fails:
  "(name, content) \<in> set fs \<Longrightarrow> endswith name (py ''.cs'') \<Longrightarrow> count_sloc_in_file content = Inl e0 \<Longrightarrow>
   \<exists>e. for_file_in_files root fs acc = Inl e"
proof (induction fs arbitrary: acc)
  case Nil
  then show ?case by simp
next
  case (Cons fc fs)
  obtain f c where fc: "fc = (f, c)" by (cases fc)
  from Cons show ?case
    by (auto simp: fc split: sum.splits)
qed

lemma for_root_Inl:
  "for_root_in_walk ws acc = Inl e \<Longrightarrow>
   \<exists>(root, file, content) \<in> set (walk_files ws). endswith file (py ''.cs'') \<and> count_sloc_in_file content = Inl e"
proof (induction ws arbitrary: acc)
  case Nil
  then show ?case by simp
next
  case (Cons w ws)
  obtain root dn fs where w: "w = (root, dn, fs)" by (cases w)
  show ?case
  proof (cases "for_file_in_files root fs acc")
    case (Inl e')
    with Cons.prems have "e' = e" by (simp add: w)
    with for_file_Inl [OF Inl] show ?thesis by (auto simp: w)
  next
    case (Inr acc')
    with Cons.prems have "for_root_in_walk ws acc' = Inl e" by (simp add: w)
    from Cons.IH [OF this] show ?thesis by (auto simp: w)
  qed
qed

lemma for_root_fails:
  "(root, name, content) \<in> set (walk_files ws) \<Longrightarrow> endswith name (py ''.cs'') \<Longrightarrow>
   count_sloc_in_file content = Inl e0 \<Longrightarrow> \<exists>e. for_root_in_walk ws acc = Inl e"
proof (induction ws arbitrary: acc)
  case Nil
  then show ?case by simp
next
  case (Cons w ws)
  obtain r dn fs where w: "w = (r, dn, fs)" by (cases w)
  show ?case
  proof (cases "for_file_in_files r fs acc")
    case (Inl e')
    then show ?thesis by (simp add: w)
  next
    case (Inr acc')
    have "(name, content) \<notin> set fs"
      using for_file_fails [of name content fs e0 r acc] Cons.prems(2,3) Inr by auto
    with Cons.prems(1) have "(root, name, content) \<in> set (walk_files ws)"
      by (auto simp: w)
    from Cons.IH [OF this Cons.prems(2,3), of acc'] Inr show ?thesis by (simp add: w)
  qed
qed

lemmas eval_walk = count_sloc_in_directory_def join_def endswith_def is_cs_def pair_of_def

subsection \<open>The reporter and the sort\<close>

lemma for_pair_rows:
  "for_pair_in_pairs ps t =
     (map (\<lambda>(path, n). format_row path (str_int n)) ps, t + sum_list (map snd ps))"
  by (induction ps arbitrary: t) (auto simp: Let_def)

lemma length_header: "length header = 71"
  by (simp add: header_def format_row_def ljust_def rjust_def)

lemma print_sloc_table_lines:
  "print_sloc_table ps =
     [header, replicate 71 61] @ map (\<lambda>(path, n). format_row path (str_int n)) ps @
     [replicate 71 61, format_row (py ''Total'') (str_int (sum_list (map snd ps)))]"
  by (simp add: print_sloc_table_def for_pair_rows length_header)

lemma digits_small: "n < 10 \<Longrightarrow> digits n = [48 + n]"
  by (subst digits.simps) simp

lemma digits_large: "\<not> n < 10 \<Longrightarrow> digits n = digits (n div 10) @ [48 + n mod 10]"
  by (subst digits.simps) simp

lemma digits_not_Nil: "digits n \<noteq> []"
  by (cases "n < 10") (simp_all add: digits_small digits_large)

lemma digits_inj: "digits n = digits m \<Longrightarrow> n = m"
proof (induction n arbitrary: m rule: digits.induct)
  case (1 n)
  show ?case
  proof (cases "n < 10")
    case True
    show ?thesis
    proof (cases "m < 10")
      case True
      with \<open>n < 10\<close> "1.prems" show ?thesis by (simp add: digits_small)
    next
      case False
      with True "1.prems" digits_not_Nil [of "m div 10"] show ?thesis
        by (simp add: digits_small digits_large)
    qed
  next
    case False
    show ?thesis
    proof (cases "m < 10")
      case True
      with False "1.prems" digits_not_Nil [of "n div 10"] show ?thesis
        by (simp add: digits_small digits_large)
    next
      case m: False
      with False "1.prems" have "digits (n div 10) = digits (m div 10)" "n mod 10 = m mod 10"
        by (simp_all add: digits_large)
      with "1.IH" [OF False] have "n div 10 = m div 10" "n mod 10 = m mod 10" by auto
      then show ?thesis by (metis div_mult_mod_eq)
    qed
  qed
qed

lemma digits_no_minus: "45 \<notin> set (digits n)"
proof (induction n rule: digits.induct)
  case (1 n)
  show ?case
  proof (cases "n < 10")
    case True
    then show ?thesis by (simp add: digits_small)
  next
    case False
    with 1 show ?thesis by (simp add: digits_large)
  qed
qed

lemma str_int_inj: "str_int i = str_int j \<Longrightarrow> i = j"
proof -
  assume eq: "str_int i = str_int j"
  have hd: "digits k \<noteq> 45 # ds" for k ds
    using digits_no_minus [of k] by auto
  consider "i < 0" "j < 0" | "i < 0" "\<not> j < 0" | "\<not> i < 0" "j < 0" | "\<not> i < 0" "\<not> j < 0" by blast
  then show ?thesis
  proof cases
    case 1
    with eq have "nat (- i) = nat (- j)" by (auto simp: str_int_def dest: digits_inj)
    with 1 show ?thesis by simp
  next
    case 2
    with eq hd [of "nat j" "digits (nat (- i))"] show ?thesis by (simp add: str_int_def)
  next
    case 3
    with eq hd [of "nat i" "digits (nat (- j))"] show ?thesis by (simp add: str_int_def)
  next
    case 4
    with eq have "nat i = nat j" by (auto simp: str_int_def dest: digits_inj)
    with 4 show ?thesis by simp
  qed
qed

lemma sorted_sort_reverse: "sorted_wrt (\<lambda>a b. snd a \<ge> snd b) (sort_reverse ps)"
proof -
  have "sorted (map snd (sort_key snd (rev ps)))" by (rule sorted_sort_key)
  then have "sorted_wrt (\<lambda>a b. snd a \<le> snd b) (sort_key snd (rev ps))"
    by (simp add: sorted_wrt_map)
  then show ?thesis
    by (simp add: sort_reverse_def sorted_wrt_rev)
qed

lemma stable_sort_reverse:
  "filter (\<lambda>p. snd p = k) (sort_reverse ps) = filter (\<lambda>p. snd p = k) ps"
  by (simp add: sort_reverse_def rev_filter [symmetric] sort_key_stable)

lemma mset_sort_reverse: "mset (sort_reverse ps) = mset ps"
  by (simp add: sort_reverse_def)

subsection \<open>The claims about the walker, the reporter and the entry point\<close>

text \<open>
  C6. When every file under the directory whose name ends with \<^verbatim>\<open>.cs\<close> is read
  without error, the scan returns a list with one pair for each of those files, in
  traversal order and for no other file: the path is the file's name joined to the path
  of its directory, and the count is the classifier's result for the file.
\<close>

theorem directory_scan_pairs:
  assumes "\<forall>(root, file, content) \<in> set (files_under directory tree).
     endswith file (py ''.cs'') \<longrightarrow> (\<exists>n. count_sloc_in_file content = Inr n)"
  shows "\<exists>pairs. count_sloc_in_directory directory tree = Inr pairs \<and>
     list_all2 pair_of pairs (filter is_cs (files_under directory tree))"
  using for_root_ok [of "os_walk directory tree" "[]"] assms
  by (simp add: count_sloc_in_directory_def files_under_walk)

theorem directory_scan_pairs_witness:
  "count_sloc_in_directory (py ''src'')
     (Dir [(py ''A.cs'', readable [ln ''x;'']), (py ''notes.txt'', [Inl UnicodeDecodeError]),
           (py ''cs'', readable [ln ''w;''])]
          [(py ''sub'', Dir [(py ''B.cs'', readable [ln ''// c'', ln ''y;'', ln ''z;''])] [])]) =
   Inr [(py ''src/A.cs'', 1), (py ''src/sub/B.cs'', 2)]"
proof -
  let ?tree = "Dir [(py ''A.cs'', readable [ln ''x;'']), (py ''notes.txt'', [Inl UnicodeDecodeError]),
           (py ''cs'', readable [ln ''w;''])]
          [(py ''sub'', Dir [(py ''B.cs'', readable [ln ''// c'', ln ''y;'', ln ''z;''])] [])]"
  have A: "count_sloc_in_file (readable [ln ''x;'']) = Inr 1"
    and B: "count_sloc_in_file (readable [ln ''// c'', ln ''y;'', ln ''z;'']) = Inr 2"
    by (simp_all add: eval_line)
  have fu: "files_under (py ''src'') ?tree =
      [(py ''src'', py ''A.cs'', readable [ln ''x;'']), (py ''src'', py ''notes.txt'', [Inl UnicodeDecodeError]),
       (py ''src'', py ''cs'', readable [ln ''w;'']),
       (py ''src/sub'', py ''B.cs'', readable [ln ''// c'', ln ''y;'', ln ''z;''])]"
    by (simp add: join_def endswith_def)
  have h: "\<forall>(root, file, content) \<in> set (files_under (py ''src'') ?tree).
     endswith file (py ''.cs'') \<longrightarrow> (\<exists>n. count_sloc_in_file content = Inr n)"
    unfolding fu by (simp add: A B endswith_def)
  from directory_scan_pairs [OF h] obtain pairs where
    p: "count_sloc_in_directory (py ''src'') ?tree = Inr pairs"
       "list_all2 pair_of pairs (filter is_cs (files_under (py ''src'') ?tree))"
    by blast
  from p(2) have "pairs = [(py ''src/A.cs'', 1), (py ''src/sub/B.cs'', 2)]"
    unfolding fu
    by (auto simp: is_cs_def endswith_def pair_of_def A B join_def list_all2_Cons2)
  with p(1) show ?thesis by simp
qed

text \<open>
  C7. When a file under the directory whose name ends with \<^verbatim>\<open>.cs\<close> cannot be
  decoded, the scan returns no list of pairs: it raises an error, the error of a matched
  file. The run writes the prompt and nothing else, and ends with that error.
\<close>

theorem decode_error_aborts_scan:
  assumes "(root, name, content) \<in> set (files_under directory tree)"
    and "endswith name (py ''.cs'')"
    and "count_sloc_in_file content = Inl UnicodeDecodeError"
  shows "\<exists>e. count_sloc_in_directory directory tree = Inl e \<and>
     main directory tree = ([prompt], Some e) \<and>
     (\<exists>(root', file', content') \<in> set (files_under directory tree).
        endswith file' (py ''.cs'') \<and> count_sloc_in_file content' = Inl e)"
proof -
  from for_root_fails [of root name content "os_walk directory tree" UnicodeDecodeError "[]"] assms
  obtain e where e: "count_sloc_in_directory directory tree = Inl e"
    by (auto simp: count_sloc_in_directory_def files_under_walk)
  then have "for_root_in_walk (os_walk directory tree) [] = Inl e"
    by (simp add: count_sloc_in_directory_def)
  from for_root_Inl [OF this] e show ?thesis
    by (simp add: main_def files_under_walk)
qed

theorem decode_error_aborts_scan_witness:
  "count_sloc_in_file [Inr (ln ''y;''), Inl UnicodeDecodeError] = Inl UnicodeDecodeError \<and>
   count_sloc_in_directory (py ''src'')
     (Dir [(py ''A.cs'', readable [ln ''x;'']),
           (py ''B.cs'', [Inr (ln ''y;''), Inl UnicodeDecodeError])] []) = Inl UnicodeDecodeError \<and>
   main (py ''src'')
     (Dir [(py ''A.cs'', readable [ln ''x;'']),
           (py ''B.cs'', [Inr (ln ''y;''), Inl UnicodeDecodeError])] []) =
     ([prompt], Some UnicodeDecodeError)"
proof -
  let ?tree = "Dir [(py ''A.cs'', readable [ln ''x;'']),
           (py ''B.cs'', [Inr (ln ''y;''), Inl UnicodeDecodeError])] []"
  have A: "count_sloc_in_file (readable [ln ''x;'']) = Inr 1"
    and B: "count_sloc_in_file [Inr (ln ''y;''), Inl UnicodeDecodeError] = Inl UnicodeDecodeError"
    by (simp_all add: eval_line)
  have h: "(py ''src'', py ''B.cs'', [Inr (ln ''y;''), Inl UnicodeDecodeError]) \<in> set (files_under (py ''src'') ?tree)"
    "endswith (py ''B.cs'') (py ''.cs'')"
    by (simp_all add: endswith_def)
  from decode_error_aborts_scan [OF h B] obtain e where
    e: "count_sloc_in_directory (py ''src'') ?tree = Inl e" "main (py ''src'') ?tree = ([prompt], Some e)"
      "\<exists>(root', file', content') \<in> set (files_under (py ''src'') ?tree).
        endswith file' (py ''.cs'') \<and> count_sloc_in_file content' = Inl e"
    by blast
  from e(3) have "e = UnicodeDecodeError"
    by (auto simp: A B)
  with e B show ?thesis by simp
qed

text \<open>
  C5. The last line the reporter prints is the row of the label \<^verbatim>\<open>Total\<close> and the
  decimal text of the exact integer sum of the counts of all the pairs, 0 when there is
  no pair. By \<open>str_int_inj\<close> the decimal text determines the integer.
\<close>

theorem total_row_is_exact_sum:
  "last (print_sloc_table pairs) = format_row (py ''Total'') (str_int (sum_list (map snd pairs))) \<and>
   last (print_sloc_table []) = format_row (py ''Total'') (str_int 0) \<and>
   format_row (py ''Total'') (str_int (sum_list (map snd pairs))) =
     py ''Total'' @ replicate 55 32 @ py '' '' @ rjust (str_int (sum_list (map snd pairs))) 10"
  by (simp add: print_sloc_table_lines format_row_def ljust_def)

text \<open>
  C8 as stated fails: a path of 61 characters is printed whole, not truncated to the
  60 characters of the path column.
\<close>

theorem long_path_not_truncated:
  "print_sloc_table [(replicate 61 97, 0)] ! 2 \<noteq> spec_row (replicate 61 97) 0"
  by (simp add: print_sloc_table_lines format_row_def spec_row_def ljust_def)

text \<open>
  C8, as amended. The reporter prints the header, a line of 71 \<^verbatim>\<open>=\<close> characters (the
  length of the header), one row for each pair, the same line of \<^verbatim>\<open>=\<close> again, and
  the total row. A data row is the whole path, spaces up to 60 characters if the path is
  shorter, one space, and the decimal text of the count after spaces up to 10 characters
  if it is shorter. For a path of at most 60 characters this is the row of the
  specification.
\<close>

theorem table_layout:
  "print_sloc_table pairs =
     [header, replicate (length header) 61] @
     map (\<lambda>(path, n). path @ replicate (60 - length path) 32 @ py '' '' @
            replicate (10 - length (str_int n)) 32 @ str_int n) pairs @
     [replicate (length header) 61, last (print_sloc_table pairs)] \<and>
   length header = 71 \<and>
   (length path \<le> 60 \<longrightarrow> format_row path (str_int n) = spec_row path n)"
  by (simp add: print_sloc_table_lines length_header format_row_def spec_row_def ljust_def rjust_def)

theorem table_layout_witness:
  "length (py ''src/A.cs'') \<le> 60 \<and>
   format_row (py ''src/A.cs'') (str_int 12) = spec_row (py ''src/A.cs'') 12 \<and>
   format_row (py ''src/A.cs'') (str_int 12) = py ''src/A.cs'' @ replicate 52 32 @ py '' '' @ replicate 8 32 @ py ''12''"
  using table_layout [of "[]" "py ''src/A.cs''" 12]
  by (simp add: format_row_def ljust_def rjust_def str_int_def digits_small digits_large)

text \<open>
  C4. When the scan returns its pairs, the entry point prints the table of the sorted
  pairs. The sorted pairs are in descending order of count, pairs of equal count are in
  the order the scan gave them, and no pair is lost or added; the data rows of the
  table, between the two separator lines, are the rows of the sorted pairs in that
  order, so their counts do not increase from top to bottom.
\<close>

theorem main_sorts_descending_stable:
  assumes "count_sloc_in_directory directory tree = Inr pairs"
  shows "main directory tree = (prompt # print_sloc_table (sort_reverse pairs), None) \<and>
    sorted_wrt (\<lambda>a b. snd a \<ge> snd b) (sort_reverse pairs) \<and>
    (\<forall>k. filter (\<lambda>p. snd p = k) (sort_reverse pairs) = filter (\<lambda>p. snd p = k) pairs) \<and>
    mset (sort_reverse pairs) = mset pairs \<and>
    take (length pairs) (drop 2 (print_sloc_table (sort_reverse pairs))) =
      map (\<lambda>(path, n). format_row path (str_int n)) (sort_reverse pairs)"
proof -
  have "length (sort_reverse pairs) = length pairs"
    by (simp add: sort_reverse_def)
  then show ?thesis
    using assms
    by (simp add: main_def sorted_sort_reverse stable_sort_reverse mset_sort_reverse
        print_sloc_table_lines)
qed

theorem main_sorts_descending_stable_witness:
  "count_sloc_in_directory (py ''src'')
     (Dir [(py ''A.cs'', readable [ln ''x;'']), (py ''B.cs'', readable [ln ''y;'', ln ''z;'']),
           (py ''C.cs'', readable [ln ''w;''])] []) =
     Inr [(py ''src/A.cs'', 1), (py ''src/B.cs'', 2), (py ''src/C.cs'', 1)] \<and>
   sort_reverse [(py ''src/A.cs'', 1), (py ''src/B.cs'', 2), (py ''src/C.cs'', 1)] =
     [(py ''src/B.cs'', 2), (py ''src/A.cs'', 1), (py ''src/C.cs'', 1)] \<and>
   main (py ''src'')
     (Dir [(py ''A.cs'', readable [ln ''x;'']), (py ''B.cs'', readable [ln ''y;'', ln ''z;'']),
           (py ''C.cs'', readable [ln ''w;''])] []) =
     (prompt # print_sloc_table [(py ''src/B.cs'', 2), (py ''src/A.cs'', 1), (py ''src/C.cs'', 1)], None)"
proof -
  let ?tree = "Dir [(py ''A.cs'', readable [ln ''x;'']), (py ''B.cs'', readable [ln ''y;'', ln ''z;'']),
           (py ''C.cs'', readable [ln ''w;''])] []"
  have A: "count_sloc_in_file (readable [ln ''x;'']) = Inr 1"
    and B: "count_sloc_in_file (readable [ln ''y;'', ln ''z;'']) = Inr 2"
    and C: "count_sloc_in_file (readable [ln ''w;'']) = Inr 1"
    by (simp_all add: eval_line)
  have h: "count_sloc_in_directory (py ''src'') ?tree =
     Inr [(py ''src/A.cs'', 1), (py ''src/B.cs'', 2), (py ''src/C.cs'', 1)]"
    by (simp add: count_sloc_in_directory_def A B C endswith_def join_def)
  have s: "sort_reverse [(py ''src/A.cs'', 1), (py ''src/B.cs'', 2), (py ''src/C.cs'', 1)] =
     [(py ''src/B.cs'', 2), (py ''src/A.cs'', 1), (py ''src/C.cs'', 1)]"
    by (simp add: sort_reverse_def)
  from main_sorts_descending_stable [OF h] h s show ?thesis by simp
qed

end
